theory Spec2Isabelle
  imports Complex_Main "HOL-Library.AList" "HOL-Library.Sublist"
begin

section \<open>The MultiVCFAnalyzer module of MultiQC\<close>

text \<open>
  A shallow embedding of \<^verbatim>\<open>multiqc/modules/multivcfanalyzer/multivcfanalyzer.py\<close>:
  the class \<^verbatim>\<open>MultiqcModule\<close> with its constructor and \<^verbatim>\<open>parse_data\<close>.
  The module object is a record that every method takes and returns; an exception is
  the left injection of a sum, carrying the state the object had when it was raised.
\<close>

subsection \<open>Python values and exceptions\<close>

text \<open>
  The exceptions that the module and the builtins it calls can raise.
\<close>

datatype py_error = TypeError | ValueError | OverflowError | AttributeError | KeyError
  | UserWarning

text \<open>
  What \<^verbatim>\<open>json.load\<close> builds: \<^verbatim>\<open>None\<close>, booleans, integers (unbounded), floats,
  strings, lists and dicts with string keys. The type \<open>'f\<close> is the type of Python's
  floats, which the module only ever moves around. A dict is the list of its items in
  insertion order, as Python (3.7 and later) iterates it.
\<close>

datatype 'f pyval = PNone | PBool bool | PInt int | PFloat 'f | PStr string
  | PList "'f pyval list" | PDict "(string \<times> 'f pyval) list"

type_synonym 'f metrics = "(string \<times> 'f pyval) list"
type_synonym 'f table = "(string \<times> 'f metrics) list"

subsection \<open>The host and the standard library\<close>

text \<open>
  What the module calls and does not define, taken as parameters:
  \<^item> \<open>json_load\<close>: \<^verbatim>\<open>json.load\<close> on the file handle. \<open>Inl\<close> is the text of the exception
    it raised; \<open>Inr\<close> is the decoded document, a JSON object as the input format has it
    (the items of the dict in the order of the file). A document of another kind, such
    as an array, is not an input of this model.
  \<^item> \<open>float_of_str\<close>, \<open>float_of_int\<close>: the builtin \<^verbatim>\<open>float\<close> on a string (\<open>None\<close>: the
    string is no float literal, \<^verbatim>\<open>ValueError\<close>) and on an integer (\<open>None\<close>: the
    integer is beyond the range of a float, \<^verbatim>\<open>OverflowError\<close>).
  \<^item> \<open>clean_s_name\<close>: \<^verbatim>\<open>BaseMultiqcModule.clean_s_name(s_name, root)\<close>.
  \<^item> \<open>sample_ignored\<close>: the ignore rules that \<^verbatim>\<open>BaseMultiqcModule.ignore_samples\<close> applies
    to a sample name.
\<close>

record 'f host =
  json_load :: "string \<Rightarrow> string + (string \<times> 'f pyval) list"
  float_of_str :: "string \<Rightarrow> 'f option"
  float_of_int :: "int \<Rightarrow> 'f option"
  clean_s_name :: "string \<Rightarrow> string \<Rightarrow> string"
  sample_ignored :: "string \<Rightarrow> bool"

text \<open>
  An entry of \<^verbatim>\<open>find_log_files('multivcfanalyzer', filehandles=True)\<close>: the dict with the
  keys \<^verbatim>\<open>'f'\<close> (the handle, here its content), \<^verbatim>\<open>'fn'\<close> and \<^verbatim>\<open>'root'\<close>.
\<close>

record logfile =
  f_f :: string
  f_fn :: string
  f_root :: string

text \<open>
  The builtin \<^verbatim>\<open>float(v)\<close>: a float is returned as it is, an integer and a boolean
  (an integer in Python) are converted, a string is parsed, and anything else is a
  \<^verbatim>\<open>TypeError\<close>.
\<close>

fun py_float :: "'f host \<Rightarrow> 'f pyval \<Rightarrow> py_error + 'f" where
  "py_float h (PFloat x) = Inr x"
| "py_float h (PInt i) =
     (case float_of_int h i of None \<Rightarrow> Inl OverflowError | Some x \<Rightarrow> Inr x)"
| "py_float h (PBool b) =
     (case float_of_int h (if b then 1 else 0) of None \<Rightarrow> Inl OverflowError | Some x \<Rightarrow> Inr x)"
| "py_float h (PStr s) =
     (case float_of_str h s of None \<Rightarrow> Inl ValueError | Some x \<Rightarrow> Inr x)"
| "py_float h PNone = Inl TypeError"
| "py_float h (PList xs) = Inl TypeError"
| "py_float h (PDict kvs) = Inl TypeError"

text \<open>
  \<^verbatim>\<open>v.items()\<close>: only a dict has the method.
\<close>

fun py_items :: "'f pyval \<Rightarrow> py_error + (string \<times> 'f pyval) list" where
  "py_items (PDict kvs) = Inr kvs"
| "py_items v = Inl AttributeError"

subsection \<open>The module object\<close>

datatype log_entry = LogDebug string | LogWarn string

datatype hval = HStr string | HBool bool

text \<open>
  The calls that hand the table to the host: \<^verbatim>\<open>write_data_file\<close>,
  \<^verbatim>\<open>general_stats_addcols\<close>, \<^verbatim>\<open>bargraph.plot\<close> and \<^verbatim>\<open>add_section\<close> (whose plot
  is the one of the call before it).
\<close>

datatype 'f host_call =
    WriteDataFile "'f table" string
  | GeneralStatsAddcols "'f table" "(string \<times> (string \<times> hval) list) list"
  | BargraphPlot "'f table" "(string \<times> (string \<times> string) list) list" "(string \<times> string) list"
  | AddSection string string string

text \<open>
  \<open>mvcf_data\<close> is \<^verbatim>\<open>self.mvcf_data\<close>; \<open>data_sources\<close> holds the calls of
  \<^verbatim>\<open>add_data_source(f, s_clean)\<close> (sample, root, file name), \<open>log_msgs\<close> the messages
  given to the logger and \<open>report\<close> the calls above, each in the order made.
\<close>

record 'f module =
  mvcf_data :: "'f table"
  data_sources :: "(string \<times> string \<times> string) list"
  log_msgs :: "log_entry list"
  report :: "'f host_call list"

definition new_module :: "'f module" where
  "new_module = \<lparr>mvcf_data = [], data_sources = [], log_msgs = [], report = []\<rparr>"

definition log_debug :: "string \<Rightarrow> 'f module \<Rightarrow> 'f module" where
  "log_debug s m = m\<lparr>log_msgs := log_msgs m @ [LogDebug s]\<rparr>"

definition log_warn :: "string \<Rightarrow> 'f module \<Rightarrow> 'f module" where
  "log_warn s m = m\<lparr>log_msgs := log_msgs m @ [LogWarn s]\<rparr>"

definition add_data_source :: "logfile \<Rightarrow> string \<Rightarrow> 'f module \<Rightarrow> 'f module" where
  "add_data_source f s_clean m =
     m\<lparr>data_sources := data_sources m @ [(s_clean, f_root f, f_fn f)]\<rparr>"

subsection \<open>\<^verbatim>\<open>parse_data\<close>\<close>

text \<open>
  Lines 71 to 74, the value stored for a metric:
  \<^verbatim>\<open>
  try:
      self.mvcf_data[s_clean][k] = float(v)
  except ValueError:
      self.mvcf_data[s_clean][k] = v
  \<close>
  Only \<^verbatim>\<open>ValueError\<close> is caught; any other exception of \<^verbatim>\<open>float\<close> leaves the method.
\<close>

definition coerce :: "'f host \<Rightarrow> 'f pyval \<Rightarrow> py_error + 'f pyval" where
  "coerce h v =
     (case py_float h v of
        Inr x \<Rightarrow> Inr (PFloat x)
      | Inl e \<Rightarrow> if e = ValueError then Inr v else Inl e)"

text \<open>
  \<^verbatim>\<open>self.mvcf_data[s_clean][k] = w\<close>: the dict of the sample is looked up
  (\<^verbatim>\<open>KeyError\<close> when it is missing) and updated in place. An assignment to a key
  that a dict has keeps the key where it is, and a new key goes to the end.
\<close>

definition set_metric :: "string \<Rightarrow> string \<Rightarrow> 'f pyval \<Rightarrow> 'f module \<Rightarrow> (py_error \<times> 'f module) + 'f module"
  where
  "set_metric s_clean k w m =
     (case map_of (mvcf_data m) s_clean of
        None \<Rightarrow> Inl (KeyError, m)
      | Some r \<Rightarrow>
          Inr (m\<lparr>mvcf_data := AList.update s_clean (AList.update k w r) (mvcf_data m)\<rparr>))"

text \<open>
  The loop of line 70, \<^verbatim>\<open>for k, v in data[s_name].items()\<close>, over the items.
\<close>

fun parse_metrics ::
  "'f host \<Rightarrow> string \<Rightarrow> (string \<times> 'f pyval) list \<Rightarrow> 'f module \<Rightarrow> (py_error \<times> 'f module) + 'f module"
  where
  "parse_metrics h s_clean [] m = Inr m"
| "parse_metrics h s_clean ((k, v) # kvs) m =
     (case coerce h v of
        Inl e \<Rightarrow> Inl (e, m)
      | Inr w \<Rightarrow>
          (case set_metric s_clean k w m of
             Inl em \<Rightarrow> Inl em
           | Inr m' \<Rightarrow> parse_metrics h s_clean kvs m'))"

text \<open>
  The body of the loop of line 59 for one \<^verbatim>\<open>s_name\<close> that is not skipped, lines 63 to
  74.
\<close>

definition parse_sample ::
  "'f host \<Rightarrow> logfile \<Rightarrow> (string \<times> 'f pyval) list \<Rightarrow> string \<Rightarrow> 'f module \<Rightarrow> (py_error \<times> 'f module) + 'f module"
  where
  "parse_sample h f data s_name m =
     (let s_clean = clean_s_name h s_name (f_root f);
          m1 = (if s_clean \<in> fst ` set (mvcf_data m)
                then log_debug (''Duplicate sample name found! Overwriting: '' @ s_clean) m
                else m);
          m2 = add_data_source f s_clean m1;
          m3 = m2\<lparr>mvcf_data := AList.update s_clean [] (mvcf_data m2)\<rparr>
      in case map_of data s_name of
           None \<Rightarrow> Inl (KeyError, m3)
         | Some sv \<Rightarrow>
             (case py_items sv of
                Inl e \<Rightarrow> Inl (e, m3)
              | Inr kvs \<Rightarrow> parse_metrics h s_clean kvs m3))"

text \<open>
  The loop of line 59, \<^verbatim>\<open>for s_name in data\<close>, over the keys still to visit.
\<close>

fun parse_samples ::
  "'f host \<Rightarrow> logfile \<Rightarrow> (string \<times> 'f pyval) list \<Rightarrow> string list \<Rightarrow> 'f module \<Rightarrow> (py_error \<times> 'f module) + 'f module"
  where
  "parse_samples h f data [] m = Inr m"
| "parse_samples h f data (s_name # rest) m =
     (if s_name = ''metadata'' then parse_samples h f data rest m
      else
        (case parse_sample h f data s_name m of
           Inl em \<Rightarrow> Inl em
         | Inr m' \<Rightarrow> parse_samples h f data rest m'))"

definition parse_data :: "'f host \<Rightarrow> logfile \<Rightarrow> 'f module \<Rightarrow> (py_error \<times> 'f module) + 'f module"
  where
  "parse_data h f m =
     (case json_load h (f_f f) of
        Inl e \<Rightarrow>
          Inr (log_warn (''Could not parse MultiVCFAnalyzer JSON: '' @ [CHR 0x27] @ f_fn f @ [CHR 0x27])
                 (log_debug e m))
      | Inr data \<Rightarrow> parse_samples h f data (map fst data) m)"

subsection \<open>The constructor\<close>

text \<open>
  The loop of line 30 over the files that \<^verbatim>\<open>find_log_files\<close> found, in its order.
\<close>

fun parse_files ::
  "'f host \<Rightarrow> logfile list \<Rightarrow> 'f module \<Rightarrow> (py_error \<times> 'f module) + 'f module"
  where
  "parse_files h [] m = Inr m"
| "parse_files h (f # fs) m =
     (case parse_data h f m of
        Inl em \<Rightarrow> Inl em
      | Inr m' \<Rightarrow> parse_files h fs m')"

text \<open>
  Modelled from the spec: \<^verbatim>\<open>BaseMultiqcModule.ignore_samples\<close>, which is not part of this
  module. It "removes entries matching caller-configured ignore rules" and keeps the
  others as they are, in their order.
\<close>

definition ignore_samples :: "'f host \<Rightarrow> 'f table \<Rightarrow> 'f table" where
  "ignore_samples h data = filter (\<lambda>(k, v). \<not> sample_ignored h k) data"

definition write_data_file :: "string \<Rightarrow> 'f module \<Rightarrow> 'f module" where
  "write_data_file fn m = m\<lparr>report := report m @ [WriteDataFile (mvcf_data m) fn]\<rparr>"

definition headers :: "(string \<times> (string \<times> hval) list) list" where
  "headers =
    [(''SNP Calls (all)'',
        [(''title'', HStr ''All SNP calls''),
         (''description'', HStr ''The complete set of SNP calls''),
         (''scale'', HStr ''OrRd''), (''hidden'', HBool True),
         (''shared_key'', HStr ''snp_call'')]),
     (''SNP Calls (het)'',
        [(''title'', HStr ''Heterozygous SNP Calls''),
         (''description'', HStr ''The set of heterozygous SNP calls''),
         (''scale'', HStr ''OrRd''), (''hidden'', HBool True),
         (''shared_key'', HStr ''snp_call'')]),
     (''coverage(fold)'',
        [(''title'', HStr ''Fold Coverage''),
         (''description'', HStr ''The fold coverage on average over all positions.''),
         (''scale'', HStr ''OrRd''), (''hidden'', HBool True),
         (''shared_key'', HStr ''coverage'')]),
     (''coverage(percent)'',
        [(''title'', HStr ''Percent Covered''),
         (''description'', HStr ''Percentage of genome covered by selected coverage threshold.''),
         (''scale'', HStr ''PuBuGn''), (''shared_key'', HStr ''coverage'')]),
     (''refCall'',
        [(''title'', HStr ''Number of reference calls''),
         (''description'', HStr ''Number of calls where there is a reference allele.''),
         (''scale'', HStr ''BuPu''), (''shared_key'', HStr ''calls'')]),
     (''allPos'',
        [(''title'', HStr ''XXXX''), (''description'', HStr ''YYYY''),
         (''scale'', HStr ''BuPu''), (''shared_key'', HStr ''calls'')]),
     (''noCall'',
        [(''title'', HStr ''XXXX''), (''description'', HStr ''YYYY''),
         (''scale'', HStr ''BuPu''), (''shared_key'', HStr ''calls'')]),
     (''discardedRefCall'',
        [(''title'', HStr ''XXXX''), (''description'', HStr ''YYYY''),
         (''scale'', HStr ''BuPu''), (''shared_key'', HStr ''snp_ccallsount'')]),
     (''discardedVarCall'',
        [(''title'', HStr ''XXXX''), (''description'', HStr ''YYYYY''),
         (''scale'', HStr ''BuPu''), (''shared_key'', HStr ''calls'')]),
     (''filteredVarCall'',
        [(''title'', HStr ''XXXXX''), (''description'', HStr ''YYYYY''),
         (''scale'', HStr ''BuPu''), (''shared_key'', HStr ''calls'')]),
     (''unhandledGenotype'',
        [(''title'', HStr ''An unhandled genotype''),
         (''description'',
            HStr (''A genotype that can'' @ [CHR 0x27] @ ''t be used by MultiVCFAnalyzer.'')),
         (''scale'', HStr ''BuPu''), (''shared_key'', HStr ''snp_count'')])]"

definition addSummaryMetrics :: "'f module \<Rightarrow> 'f module" where
  "addSummaryMetrics m = m\<lparr>report := report m @ [GeneralStatsAddcols (mvcf_data m) headers]\<rparr>"

definition read_count_barplot :: "'f module \<Rightarrow> 'f module" where
  "read_count_barplot m =
     (let cats = [(''NR Aut'', [(''name'', ''Autosomal Reads'')]),
                  (''NrX'', [(''name'', ''Reads on X'')]),
                  (''NrY'', [(''name'', ''Reads on Y'')])];
          config = [(''id'', ''sexdeterrmine-readcounts-plot''),
                    (''title'', ''SexDetErrmine: Read Counts''),
                    (''ylab'', ''# Reads'')]
      in m\<lparr>report := report m @
           [BargraphPlot (mvcf_data m) cats config,
            AddSection ''Read Counts'' ''sexdeterrmine-readcounts''
              ''The number of reads covering positions on the autosomes, X and Y chromosomes.'']\<rparr>)"

definition snp_count_barplot :: "'f module \<Rightarrow> 'f module" where
  "snp_count_barplot m =
     (let cats = [(''Snps Autosomal'', [(''name'', ''Autosomal SNPs'')]),
                  (''XSnps'', [(''name'', ''SNPs on X'')]),
                  (''YSnps'', [(''name'', ''SNPs on Y'')])];
          config = [(''id'', ''sexdeterrmine-snps-plot''),
                    (''title'', ''SexDetErrmine: SNP Counts''),
                    (''ylab'', ''# Reads'')]
      in m\<lparr>report := report m @
           [BargraphPlot (mvcf_data m) cats config,
            AddSection ''SNP Counts'' ''sexdeterrmine-snps''
              ''Total number of SNP positions. When supplied with a BED file, this includes only positions specified there.'']\<rparr>)"

text \<open>
  \<^verbatim>\<open>__init__\<close>, lines 26 to 48, on the files that \<^verbatim>\<open>find_log_files\<close> returns.
\<close>

definition init :: "'f host \<Rightarrow> logfile list \<Rightarrow> (py_error \<times> 'f module) + 'f module" where
  "init h files =
     (case parse_files h files new_module of
        Inl em \<Rightarrow> Inl em
      | Inr m \<Rightarrow>
          (let m1 = m\<lparr>mvcf_data := ignore_samples h (mvcf_data m)\<rparr>
           in if length (mvcf_data m1) = 0 then Inl (UserWarning, m1)
              else Inr (snp_count_barplot (read_count_barplot (addSummaryMetrics
                     (write_data_file ''multiqc_multivcfanalyzer_metrics'' m1))))))"

subsection \<open>Notions for the proofs\<close>

text \<open>
  The record that the loop of line 70 builds from the items \<open>kvs\<close> when it starts from the
  dict \<open>r\<close>, or the exception that ends it.
\<close>

fun coerce_items :: "'f host \<Rightarrow> (string \<times> 'f pyval) list \<Rightarrow> 'f metrics \<Rightarrow> py_error + 'f metrics" where
  "coerce_items h [] r = Inr r"
| "coerce_items h ((k, v) # kvs) r =
     (case coerce h v of Inl e \<Rightarrow> Inl e | Inr w \<Rightarrow> coerce_items h kvs (AList.update k w r))"

text \<open>
  The module after lines 63 to 74 have stored the record \<open>r\<close> under \<open>sc\<close>.
\<close>

definition sample_state :: "logfile \<Rightarrow> string \<Rightarrow> 'f metrics \<Rightarrow> 'f module \<Rightarrow> 'f module" where
  "sample_state f sc r m =
     m\<lparr>mvcf_data := AList.update sc r (mvcf_data m),
       data_sources := data_sources m @ [(sc, f_root f, f_fn f)],
       log_msgs := (if sc \<in> fst ` set (mvcf_data m)
                    then log_msgs m @ [LogDebug (''Duplicate sample name found! Overwriting: '' @ sc)]
                    else log_msgs m)\<rparr>"

text \<open>
  The record of the sample \<open>s\<close> of a document, when \<open>data[s]\<close> is a dict whose values
  all pass the coercion.
\<close>

definition sample_record :: "'f host \<Rightarrow> (string \<times> 'f pyval) list \<Rightarrow> string \<Rightarrow> 'f metrics option" where
  "sample_record h data s =
     (case map_of data s of
        Some (PDict kvs) \<Rightarrow> (case coerce_items h kvs [] of Inr r \<Rightarrow> Some r | Inl e \<Rightarrow> None)
      | _ \<Rightarrow> None)"

text \<open>
  The keys that the loop of line 59 does not skip, and the cleaned names that a file
  brings, in the order of the file (none when the file does not decode).
\<close>

definition sample_keys :: "string list \<Rightarrow> string list" where
  "sample_keys ks = filter (\<lambda>s. s \<noteq> ''metadata'') ks"

definition cleaned_names :: "'f host \<Rightarrow> logfile \<Rightarrow> string list" where
  "cleaned_names h f =
     (case json_load h (f_f f) of
        Inl e \<Rightarrow> []
      | Inr data \<Rightarrow> map (\<lambda>s. clean_s_name h s (f_root f)) (sample_keys (map fst data)))"

text \<open>
  The keys of a dict with the keys \<open>ks\<close> after assignments to the keys \<open>cs\<close>, in this
  order: a key that is there stays where it is, a new one goes to the end.
\<close>

fun insert_keys :: "string list \<Rightarrow> string list \<Rightarrow> string list" where
  "insert_keys ks [] = ks"
| "insert_keys ks (c # cs) = insert_keys (if c \<in> set ks then ks else ks @ [c]) cs"

text \<open>
  The documents of the input format: every sample other than \<^verbatim>\<open>"metadata"\<close> is an
  object, and each of its values is a string or a number (a boolean is an integer for
  Python) that \<^verbatim>\<open>float\<close> converts.
\<close>

fun metric_ok :: "'f host \<Rightarrow> 'f pyval \<Rightarrow> bool" where
  "metric_ok h (PStr s) = True"
| "metric_ok h (PFloat x) = True"
| "metric_ok h (PInt i) = (float_of_int h i \<noteq> None)"
| "metric_ok h (PBool b) = (float_of_int h (if b then 1 else 0) \<noteq> None)"
| "metric_ok h v = False"

fun sample_ok :: "'f host \<Rightarrow> 'f pyval \<Rightarrow> bool" where
  "sample_ok h (PDict kvs) = list_all (\<lambda>(k, v). metric_ok h v) kvs"
| "sample_ok h v = False"

definition well_formed :: "'f host \<Rightarrow> (string \<times> 'f pyval) list \<Rightarrow> bool" where
  "well_formed h data = list_all (\<lambda>(s, v). s \<noteq> ''metadata'' \<longrightarrow> sample_ok h v) data"

subsection \<open>A host and files for the examples\<close>

text \<open>
  The floats are real numbers here. The host decodes the texts of the table below and
  fails on any other, \<^verbatim>\<open>float\<close> knows the numerals that these texts hold and
  converts the integers that a float holds exactly, names are left as they are and no
  sample is ignored.
\<close>

definition example_documents :: "(string \<times> (string \<times> real pyval) list) list" where
  \<open>example_documents =
    [(''{"S1": {"NR Aut": "100", "NrX": "5.5", "noCall": "low"}}'',
        [(''S1'', PDict [(''NR Aut'', PStr ''100''), (''NrX'', PStr ''5.5''),
                         (''noCall'', PStr ''low'')])]),
     (''{"S1": {"NrY": "7"}, "S2": {"NrX": 3}}'',
        [(''S1'', PDict [(''NrY'', PStr ''7'')]), (''S2'', PDict [(''NrX'', PInt 3)])]),
     (''{"S1": {"noCall": null}}'',
        [(''S1'', PDict [(''noCall'', PNone)])]),
     (''{"metadata": {"tool": "MultiVCFAnalyzer"}, "S3": {"NrX": "5.5"}}'',
        [(''metadata'', PDict [(''tool'', PStr ''MultiVCFAnalyzer'')]),
         (''S3'', PDict [(''NrX'', PStr ''5.5'')])]),
     (''{"S3": {"NrX": "5.5"}}'',
        [(''S3'', PDict [(''NrX'', PStr ''5.5'')])]),
     (''{"Metadata": {}, "METADATA": {}, "metadata ": {}}'',
        [(''Metadata'', PDict []), (''METADATA'', PDict []), (''metadata '', PDict [])])]\<close>

definition example_host :: "real host" where
  "example_host =
     \<lparr>json_load = (\<lambda>text. case map_of example_documents text of
                              None \<Rightarrow> Inl ''Expecting value''
                            | Some data \<Rightarrow> Inr data),
      float_of_str = map_of [(''100'', 100), (''5.5'', 11 / 2), (''7'', 7)],
      float_of_int = (\<lambda>i. if \<bar>i\<bar> < 2 ^ 53 then Some (real_of_int i) else None),
      clean_s_name = (\<lambda>s_name root. s_name),
      sample_ignored = (\<lambda>s_name. False)\<rparr>"

definition file_a :: logfile where
  \<open>file_a = \<lparr>f_f = ''{"S1": {"NR Aut": "100", "NrX": "5.5", "noCall": "low"}}'',
             f_fn = ''a.json'', f_root = ''run1''\<rparr>\<close>

definition file_b :: logfile where
  \<open>file_b = \<lparr>f_f = ''{"S1": {"NrY": "7"}, "S2": {"NrX": 3}}'',
             f_fn = ''b.json'', f_root = ''run2''\<rparr>\<close>

definition file_null :: logfile where
  \<open>file_null = \<lparr>f_f = ''{"S1": {"noCall": null}}'', f_fn = ''null.json'', f_root = ''run3''\<rparr>\<close>

definition file_truncated :: logfile where
  \<open>file_truncated = \<lparr>f_f = ''{"S1": {"NR Aut": '', f_fn = ''cut.json'', f_root = ''run4''\<rparr>\<close>

definition file_meta :: logfile where
  \<open>file_meta = \<lparr>f_f = ''{"metadata": {"tool": "MultiVCFAnalyzer"}, "S3": {"NrX": "5.5"}}'',
                f_fn = ''m.json'', f_root = ''run5''\<rparr>\<close>

definition file_no_meta :: logfile where
  \<open>file_no_meta = \<lparr>f_f = ''{"S3": {"NrX": "5.5"}}'', f_fn = ''m.json'', f_root = ''run5''\<rparr>\<close>

definition file_case :: logfile where
  \<open>file_case = \<lparr>f_f = ''{"Metadata": {}, "METADATA": {}, "metadata ": {}}'',
                f_fn = ''c.json'', f_root = ''run6''\<rparr>\<close>

section \<open>Properties of the loops\<close>

lemma parse_metrics_Inr:
  "map_of (mvcf_data m) sc = Some r \<Longrightarrow>
   parse_metrics h sc kvs m = Inr m' \<longleftrightarrow>
   (\<exists>r'. coerce_items h kvs r = Inr r' \<and> m' = m\<lparr>mvcf_data := AList.update sc r' (mvcf_data m)\<rparr>)"
proof (induction kvs arbitrary: m r)
  case Nil
  then show ?case by (auto simp: update_triv)
next
  case (Cons kv kvs)
  obtain k v where kv: "kv = (k, v)" by (cases kv)
  show ?case
  proof (cases "coerce h v")
    case (Inl e)
    then show ?thesis by (simp add: kv)
  next
    case (Inr w)
    let ?m1 = "m\<lparr>mvcf_data := AList.update sc (AList.update k w r) (mvcf_data m)\<rparr>"
    have s: "set_metric sc k w m = Inr ?m1"
      using Cons.prems by (simp add: set_metric_def)
    have l: "map_of (mvcf_data ?m1) sc = Some (AList.update k w r)"
      by (simp add: update_conv')
    show ?thesis
      using Cons.IH [OF l] by (simp add: kv Inr s)
  qed
qed

lemma parse_sample_Inr:
  "parse_sample h f data s m = Inr m' \<longleftrightarrow>
   (\<exists>kvs r. map_of data s = Some (PDict kvs) \<and> coerce_items h kvs [] = Inr r \<and>
      m' = sample_state f (clean_s_name h s (f_root f)) r m)"
proof -
  let ?sc = "clean_s_name h s (f_root f)"
  let ?m1 = "if ?sc \<in> fst ` set (mvcf_data m)
                then log_debug (''Duplicate sample name found! Overwriting: '' @ ?sc) m
                else m"
  let ?m3 = "(add_data_source f ?sc ?m1)\<lparr>mvcf_data := AList.update ?sc [] (mvcf_data (add_data_source f ?sc ?m1))\<rparr>"
  have l: "map_of (mvcf_data ?m3) ?sc = Some []"
    by (simp add: update_conv')
  have e: "?m3\<lparr>mvcf_data := AList.update ?sc r (mvcf_data ?m3)\<rparr> = sample_state f ?sc r m" for r
    by (simp add: sample_state_def add_data_source_def log_debug_def)
  show ?thesis
  proof (cases "map_of data s")
    case None
    then show ?thesis by (simp add: parse_sample_def Let_def)
  next
    case (Some sv)
    show ?thesis
    proof (cases sv)
      case (PDict kvs)
      have "parse_sample h f data s m = parse_metrics h ?sc kvs ?m3"
        by (simp add: parse_sample_def Let_def Some PDict)
      then show ?thesis
        using parse_metrics_Inr [OF l, of h kvs m'] e by (simp add: Some PDict)
    qed (simp_all add: parse_sample_def Let_def Some)
  qed
qed

lemma parse_sample_iff:
  "parse_sample h f data s m = Inr m' \<longleftrightarrow>
   (\<exists>r. sample_record h data s = Some r \<and> m' = sample_state f (clean_s_name h s (f_root f)) r m)"
  unfolding parse_sample_Inr sample_record_def
  by (auto split: option.splits pyval.splits sum.splits)

lemma sample_state_simps [simp]:
  "mvcf_data (sample_state f sc r m) = AList.update sc r (mvcf_data m)"
  "report (sample_state f sc r m) = report m"
  "data_sources (sample_state f sc r m) = data_sources m @ [(sc, f_root f, f_fn f)]"
  by (simp_all add: sample_state_def)

lemma sample_state_log:
  "set (log_msgs m) \<subseteq> set (log_msgs (sample_state f sc r m))"
  "sc \<in> fst ` set (mvcf_data m) \<Longrightarrow>
     LogDebug (''Duplicate sample name found! Overwriting: '' @ sc) \<in> set (log_msgs (sample_state f sc r m))"
  by (auto simp: sample_state_def)

lemma parse_samples_sample_keys:
  "parse_samples h f data ks m = parse_samples h f data (sample_keys ks) m"
  by (induction ks arbitrary: m) (auto simp: sample_keys_def split: sum.splits)

lemma parse_samples_ok:
  "(\<exists>m'. parse_samples h f data ks m = Inr m') \<longleftrightarrow>
   (\<forall>s \<in> set (sample_keys ks). sample_record h data s \<noteq> None)"
proof (induction ks arbitrary: m)
  case Nil
  then show ?case by (simp add: sample_keys_def)
next
  case (Cons s ks)
  show ?case
  proof (cases "s = ''metadata''")
    case True
    then show ?thesis using Cons.IH [of m] by (simp add: sample_keys_def)
  next
    case False
    show ?thesis
    proof (cases "sample_record h data s")
      case None
      then have "\<exists>em. parse_sample h f data s m = Inl em"
        using parse_sample_iff [of h f data s m] by (cases "parse_sample h f data s m") auto
      then show ?thesis using False None by (auto simp: sample_keys_def)
    next
      case (Some r)
      then have "parse_sample h f data s m = Inr (sample_state f (clean_s_name h s (f_root f)) r m)"
        by (simp add: parse_sample_iff)
      then show ?thesis
        using False Some Cons.IH [of "sample_state f (clean_s_name h s (f_root f)) r m"]
        by (simp add: sample_keys_def)
    qed
  qed
qed

lemma parse_samples_lookup:
  "parse_samples h f data ks m = Inr m' \<Longrightarrow>
   map_of (mvcf_data m') c =
     (let ss = filter (\<lambda>s. clean_s_name h s (f_root f) = c) (sample_keys ks)
      in if ss = [] then map_of (mvcf_data m) c else sample_record h data (last ss))"
proof (induction ks arbitrary: m)
  case Nil
  then show ?case by (simp add: sample_keys_def)
next
  case (Cons s ks)
  show ?case
  proof (cases "s = ''metadata''")
    case True
    then show ?thesis using Cons by (simp add: sample_keys_def)
  next
    case False
    then obtain m1 where p: "parse_sample h f data s m = Inr m1"
      and r: "parse_samples h f data ks m1 = Inr m'"
      using Cons.prems by (auto split: sum.splits)
    from p obtain r1 where s: "sample_record h data s = Some r1"
      and m1: "m1 = sample_state f (clean_s_name h s (f_root f)) r1 m"
      by (auto simp: parse_sample_iff)
    show ?thesis
      using Cons.IH [OF r] False s
      by (auto simp: sample_keys_def Let_def m1 update_conv')
  qed
qed

lemma parse_samples_fields:
  "parse_samples h f data ks m = Inr m' \<Longrightarrow>
   report m' = report m \<and> set (log_msgs m) \<subseteq> set (log_msgs m') \<and>
   data_sources m' = data_sources m @
     map (\<lambda>s. (clean_s_name h s (f_root f), f_root f, f_fn f)) (sample_keys ks)"
proof (induction ks arbitrary: m)
  case Nil
  then show ?case by (simp add: sample_keys_def)
next
  case (Cons s ks)
  show ?case
  proof (cases "s = ''metadata''")
    case True
    then show ?thesis using Cons by (simp add: sample_keys_def)
  next
    case False
    then obtain m1 where p: "parse_sample h f data s m = Inr m1"
      and r: "parse_samples h f data ks m1 = Inr m'"
      using Cons.prems by (auto split: sum.splits)
    from p obtain r1 where m1: "m1 = sample_state f (clean_s_name h s (f_root f)) r1 m"
      by (auto simp: parse_sample_iff)
    show ?thesis
      using Cons.IH [OF r] False sample_state_log(1) [of m f "clean_s_name h s (f_root f)" r1]
      by (auto simp: sample_keys_def m1)
  qed
qed

lemma remdups_drop_earlier: "c \<in> set ys \<Longrightarrow> remdups (xs @ c # ys) = remdups (xs @ ys)"
  by (induction xs) auto

lemma insert_keys_remdups:
  "distinct ks \<Longrightarrow> insert_keys ks cs = rev (remdups (rev (ks @ cs)))"
proof (induction cs arbitrary: ks)
  case Nil
  then show ?case by (simp add: distinct_remdups_id)
next
  case (Cons c cs)
  show ?case
  proof (cases "c \<in> set ks")
    case True
    then show ?thesis using Cons.IH [OF Cons.prems] by (simp add: remdups_drop_earlier)
  next
    case False
    then have "distinct (ks @ [c])" using Cons.prems by simp
    from Cons.IH [OF this] show ?thesis using False by simp
  qed
qed

lemma parse_samples_keys:
  "parse_samples h f data ks m = Inr m' \<Longrightarrow>
   map fst (mvcf_data m') =
     insert_keys (map fst (mvcf_data m)) (map (\<lambda>s. clean_s_name h s (f_root f)) (sample_keys ks))"
proof (induction ks arbitrary: m)
  case Nil
  then show ?case by (simp add: sample_keys_def)
next
  case (Cons s ks)
  show ?case
  proof (cases "s = ''metadata''")
    case True
    then show ?thesis using Cons by (simp add: sample_keys_def)
  next
    case False
    then obtain m1 where p: "parse_sample h f data s m = Inr m1"
      and r: "parse_samples h f data ks m1 = Inr m'"
      using Cons.prems by (auto split: sum.splits)
    from p obtain r1 where m1: "m1 = sample_state f (clean_s_name h s (f_root f)) r1 m"
      by (auto simp: parse_sample_iff)
    show ?thesis
      using Cons.IH [OF r] False
      by (simp add: sample_keys_def m1 update_keys)
  qed
qed

lemma coerce_PStr:
  "coerce h (PStr s) = Inr (case float_of_str h s of Some x \<Rightarrow> PFloat x | None \<Rightarrow> PStr s)"
  by (simp add: coerce_def split: option.splits)

lemma metric_ok_coerce: "metric_ok h v \<Longrightarrow> \<exists>w. coerce h v = Inr w"
  by (cases v) (auto simp: coerce_def split: option.splits if_splits)

lemma coerce_items_ok:
  "list_all (\<lambda>(k, v). metric_ok h v) kvs \<Longrightarrow> \<exists>r'. coerce_items h kvs r = Inr r'"
proof (induction kvs arbitrary: r)
  case Nil
  then show ?case by simp
next
  case (Cons kv kvs)
  obtain k v where kv: "kv = (k, v)" by (cases kv)
  with Cons.prems obtain w where "coerce h v = Inr w"
    using metric_ok_coerce [of h v] by auto
  then show ?case using Cons kv by simp
qed

lemma well_formed_sample_record:
  assumes "well_formed h data" and "s \<in> fst ` set data" and "s \<noteq> ''metadata''"
  shows "sample_record h data s \<noteq> None"
proof -
  from assms(2) obtain v where v: "map_of data s = Some v"
    by (metis domD dom_map_of_conv_image_fst)
  then have "(s, v) \<in> set data" by (rule map_of_SomeD)
  with assms(1,3) have "sample_ok h v"
    by (auto simp: well_formed_def list_all_iff)
  then obtain kvs where kvs: "v = PDict kvs" and ok: "list_all (\<lambda>(k, v). metric_ok h v) kvs"
    by (cases v) auto
  from coerce_items_ok [OF ok, of "[]"] show ?thesis
    by (auto simp: sample_record_def v kvs)
qed

lemma well_formed_parse_samples:
  assumes "well_formed h data"
  shows "\<exists>m'. parse_samples h f data (map fst data) m = Inr m'"
  unfolding parse_samples_ok
  using well_formed_sample_record [OF assms] by (auto simp: sample_keys_def)

lemma coerce_items_other:
  "coerce_items h kvs r0 = Inr r \<Longrightarrow> k \<notin> fst ` set kvs \<Longrightarrow> map_of r k = map_of r0 k"
proof (induction kvs arbitrary: r0)
  case Nil
  then show ?case by simp
next
  case (Cons kv kvs)
  obtain k' v where kv: "kv = (k', v)" by (cases kv)
  from Cons.prems obtain w where w: "coerce h v = Inr w"
    and r: "coerce_items h kvs (AList.update k' w r0) = Inr r"
    by (auto simp: kv split: sum.splits)
  from Cons.IH [OF r] Cons.prems(2) show ?case by (simp add: kv update_conv')
qed

lemma coerce_items_lookup:
  "coerce_items h kvs r0 = Inr r \<Longrightarrow> distinct (map fst kvs) \<Longrightarrow> map_of kvs k = Some v \<Longrightarrow>
   \<exists>w. coerce h v = Inr w \<and> map_of r k = Some w"
proof (induction kvs arbitrary: r0)
  case Nil
  then show ?case by simp
next
  case (Cons kv kvs)
  obtain k' v' where kv: "kv = (k', v')" by (cases kv)
  from Cons.prems(1) obtain w where w: "coerce h v' = Inr w"
    and r: "coerce_items h kvs (AList.update k' w r0) = Inr r"
    by (auto simp: kv split: sum.splits)
  show ?case
  proof (cases "k = k'")
    case True
    then have "v = v'" using Cons.prems(3) by (simp add: kv)
    moreover have "k' \<notin> fst ` set kvs" using Cons.prems(2) by (simp add: kv)
    ultimately show ?thesis
      using coerce_items_other [OF r, of k'] w True by (simp add: update_conv')
  next
    case False
    then show ?thesis using Cons.IH [OF r] Cons.prems(2,3) by (simp add: kv)
  qed
qed

lemma coerce_items_keys:
  "coerce_items h kvs r0 = Inr r \<Longrightarrow> map fst r = insert_keys (map fst r0) (map fst kvs)"
proof (induction kvs arbitrary: r0)
  case Nil
  then show ?case by simp
next
  case (Cons kv kvs)
  obtain k' v' where kv: "kv = (k', v')" by (cases kv)
  from Cons.prems(1) obtain w where w: "coerce h v' = Inr w"
    and r: "coerce_items h kvs (AList.update k' w r0) = Inr r"
    by (auto simp: kv split: sum.splits)
  from Cons.IH [OF r] show ?case by (simp add: kv update_keys)
qed

lemma parse_data_decoded:
  "json_load h (f_f f) = Inr data \<Longrightarrow> parse_data h f m = parse_samples h f data (map fst data) m"
  by (simp add: parse_data_def)

lemma parse_data_failed:
  "json_load h (f_f f) = Inl e \<Longrightarrow>
   parse_data h f m =
     Inr (m\<lparr>log_msgs := log_msgs m @
           [LogDebug e,
            LogWarn (''Could not parse MultiVCFAnalyzer JSON: '' @ [CHR 0x27] @ f_fn f @ [CHR 0x27])]\<rparr>)"
  by (simp add: parse_data_def log_warn_def log_debug_def)

lemma parse_data_keys:
  "parse_data h f m = Inr m' \<Longrightarrow>
   map fst (mvcf_data m') = insert_keys (map fst (mvcf_data m)) (cleaned_names h f)"
proof (cases "json_load h (f_f f)")
  case (Inl e)
  assume "parse_data h f m = Inr m'"
  then show ?thesis using Inl by (auto simp: parse_data_failed cleaned_names_def)
next
  case (Inr data)
  assume "parse_data h f m = Inr m'"
  then show ?thesis
    using Inr parse_samples_keys [of h f data "map fst data" m m']
    by (simp add: parse_data_decoded cleaned_names_def)
qed

lemma parse_data_fields:
  "parse_data h f m = Inr m' \<Longrightarrow> report m' = report m \<and> set (log_msgs m) \<subseteq> set (log_msgs m')"
proof (cases "json_load h (f_f f)")
  case (Inl e)
  assume "parse_data h f m = Inr m'"
  then show ?thesis using Inl by (auto simp: parse_data_failed)
next
  case (Inr data)
  assume "parse_data h f m = Inr m'"
  then show ?thesis
    using Inr parse_samples_fields [of h f data "map fst data" m m']
    by (simp add: parse_data_decoded)
qed

lemma parse_data_lookup_other:
  "parse_data h f m = Inr m' \<Longrightarrow> c \<notin> set (cleaned_names h f) \<Longrightarrow>
   map_of (mvcf_data m') c = map_of (mvcf_data m) c"
proof (cases "json_load h (f_f f)")
  case (Inl e)
  assume "parse_data h f m = Inr m'"
  then show ?thesis using Inl by (auto simp: parse_data_failed)
next
  case (Inr data)
  assume p: "parse_data h f m = Inr m'" and c: "c \<notin> set (cleaned_names h f)"
  from c have "filter (\<lambda>s. clean_s_name h s (f_root f) = c) (sample_keys (map fst data)) = []"
    by (auto simp: cleaned_names_def Inr filter_empty_conv)
  then show ?thesis
    using p Inr parse_samples_lookup [of h f data "map fst data" m m' c]
    by (simp add: parse_data_decoded)
qed

lemma parse_data_lookup_same:
  assumes "parse_data h f m = Inr m'" and "c \<in> set (cleaned_names h f)"
  shows "\<exists>m1 r. parse_data h f m0 = Inr m1 \<and> map_of (mvcf_data m1) c = Some r \<and>
           map_of (mvcf_data m') c = Some r"
proof (cases "json_load h (f_f f)")
  case (Inl e)
  then show ?thesis using assms(2) by (simp add: cleaned_names_def)
next
  case (Inr data)
  let ?ss = "filter (\<lambda>s. clean_s_name h s (f_root f) = c) (sample_keys (map fst data))"
  have p: "parse_samples h f data (map fst data) m = Inr m'"
    using assms(1) Inr by (simp add: parse_data_decoded)
  then have ok: "\<forall>s \<in> set (sample_keys (map fst data)). sample_record h data s \<noteq> None"
    using parse_samples_ok [of h f data "map fst data" m] by blast
  then obtain m1 where p1: "parse_samples h f data (map fst data) m0 = Inr m1"
    using parse_samples_ok [of h f data "map fst data" m0] by blast
  have ne: "?ss \<noteq> []"
    using assms(2) by (auto simp: cleaned_names_def Inr filter_empty_conv)
  then have "last ?ss \<in> set ?ss" by (rule last_in_set)
  then have "last ?ss \<in> set (sample_keys (map fst data))" by simp
  with ok obtain r where r: "sample_record h data (last ?ss) = Some r" by auto
  have "map_of (mvcf_data m') c = Some r"
    using parse_samples_lookup [OF p, of c] ne r by (simp add: Let_def)
  moreover have "map_of (mvcf_data m1) c = Some r"
    using parse_samples_lookup [OF p1, of c] ne r by (simp add: Let_def)
  ultimately show ?thesis using p1 Inr by (auto simp: parse_data_decoded)
qed

lemma parse_data_duplicate_logged:
  assumes "parse_data h f m = Inr m'" and "c \<in> set (cleaned_names h f)"
    and "c \<in> fst ` set (mvcf_data m)"
  shows "LogDebug (''Duplicate sample name found! Overwriting: '' @ c) \<in> set (log_msgs m')"
proof (cases "json_load h (f_f f)")
  case (Inl e)
  then show ?thesis using assms(2) by (simp add: cleaned_names_def)
next
  case (Inr data)
  have p: "parse_samples h f data (map fst data) m = Inr m'"
    using assms(1) Inr by (simp add: parse_data_decoded)
  have c: "c \<in> (\<lambda>s. clean_s_name h s (f_root f)) ` set (sample_keys (map fst data))"
    using assms(2) by (simp add: cleaned_names_def Inr)
  have "parse_samples h f data ks m = Inr m' \<Longrightarrow>
        c \<in> (\<lambda>s. clean_s_name h s (f_root f)) ` set (sample_keys ks) \<Longrightarrow>
        c \<in> fst ` set (mvcf_data m) \<Longrightarrow>
        LogDebug (''Duplicate sample name found! Overwriting: '' @ c) \<in> set (log_msgs m')" for ks m
  proof (induction ks arbitrary: m)
    case Nil
    then show ?case by (simp add: sample_keys_def)
  next
    case (Cons s ks)
    show ?case
    proof (cases "s = ''metadata''")
      case True
      then show ?thesis using Cons by (simp add: sample_keys_def)
    next
      case False
      then obtain m1 where p: "parse_sample h f data s m = Inr m1"
        and r: "parse_samples h f data ks m1 = Inr m'"
        using Cons.prems by (auto split: sum.splits)
      from p obtain r1 where m1: "m1 = sample_state f (clean_s_name h s (f_root f)) r1 m"
        by (auto simp: parse_sample_iff)
      show ?thesis
      proof (cases "clean_s_name h s (f_root f) = c")
        case True
        then have "LogDebug (''Duplicate sample name found! Overwriting: '' @ c) \<in> set (log_msgs m1)"
          using sample_state_log(2) [of c m f r1] Cons.prems(3) by (simp add: m1)
        then show ?thesis using parse_samples_fields [OF r] by auto
      next
        case False
        then have "c \<in> (\<lambda>s. clean_s_name h s (f_root f)) ` set (sample_keys ks)"
          using Cons.prems(2) \<open>s \<noteq> ''metadata''\<close> by (auto simp: sample_keys_def)
        moreover have "c \<in> fst ` set (mvcf_data m1)"
          using Cons.prems(3) by (simp add: m1 dom_update)
        ultimately show ?thesis using Cons.IH [OF r] by simp
      qed
    qed
  qed
  from this [OF p c assms(3)] show ?thesis .
qed

lemma parse_files_append:
  "parse_files h (fs1 @ fs2) m =
     (case parse_files h fs1 m of Inl em \<Rightarrow> Inl em | Inr m1 \<Rightarrow> parse_files h fs2 m1)"
  by (induction fs1 arbitrary: m) (auto split: sum.splits)

lemma insert_keys_append: "insert_keys ks (xs @ ys) = insert_keys (insert_keys ks xs) ys"
  by (induction xs arbitrary: ks) auto

lemma set_insert_keys: "set (insert_keys ks cs) = set ks \<union> set cs"
  by (induction cs arbitrary: ks) auto

lemma distinct_insert_keys: "distinct ks \<Longrightarrow> distinct (insert_keys ks cs)"
  by (induction cs arbitrary: ks) auto

lemma insert_keys_distinct: "distinct (ks @ cs) \<Longrightarrow> insert_keys ks cs = ks @ cs"
  by (induction cs arbitrary: ks) auto

lemma parse_files_keys:
  "parse_files h fs m = Inr m' \<Longrightarrow>
   map fst (mvcf_data m') = insert_keys (map fst (mvcf_data m)) (concat (map (cleaned_names h) fs))"
proof (induction fs arbitrary: m)
  case Nil
  then show ?case by simp
next
  case (Cons f fs)
  then obtain m1 where p: "parse_data h f m = Inr m1" and r: "parse_files h fs m1 = Inr m'"
    by (auto split: sum.splits)
  show ?case
    using Cons.IH [OF r] parse_data_keys [OF p] by (simp add: insert_keys_append)
qed

lemma parse_files_fields:
  "parse_files h fs m = Inr m' \<Longrightarrow> report m' = report m \<and> set (log_msgs m) \<subseteq> set (log_msgs m')"
proof (induction fs arbitrary: m)
  case Nil
  then show ?case by simp
next
  case (Cons f fs)
  then obtain m1 where p: "parse_data h f m = Inr m1" and r: "parse_files h fs m1 = Inr m'"
    by (auto split: sum.splits)
  show ?case
    using Cons.IH [OF r] parse_data_fields [OF p] by auto
qed

lemma parse_files_lookup_other:
  "parse_files h fs m = Inr m' \<Longrightarrow> \<forall>g \<in> set fs. c \<notin> set (cleaned_names h g) \<Longrightarrow>
   map_of (mvcf_data m') c = map_of (mvcf_data m) c"
proof (induction fs arbitrary: m)
  case Nil
  then show ?case by simp
next
  case (Cons f fs)
  then obtain m1 where p: "parse_data h f m = Inr m1" and r: "parse_files h fs m1 = Inr m'"
    by (auto split: sum.splits)
  show ?case
    using Cons.IH [OF r] parse_data_lookup_other [OF p, of c] Cons.prems(2) by simp
qed

lemma filter_key_distinct:
  "distinct (map fst al) \<Longrightarrow> map_of al c = Some r \<Longrightarrow> filter (\<lambda>(c', r'). c' = c) al = [(c, r)]"
proof (induction al)
  case Nil
  then show ?case by simp
next
  case (Cons p al)
  obtain c' r' where p: "p = (c', r')" by (cases p)
  show ?case
  proof (cases "c' = c")
    case True
    then have "c \<notin> fst ` set al" using Cons.prems(1) by (simp add: p)
    then have "filter (\<lambda>(c', r'). c' = c) al = []"
      by (force simp: filter_empty_conv)
    then show ?thesis using True Cons.prems(2) by (simp add: p)
  next
    case False
    then show ?thesis using Cons by (simp add: p)
  qed
qed

lemma parse_sample_cong:
  "map_of data s = map_of data' s \<Longrightarrow> parse_sample h f data s m = parse_sample h f data' s m"
  by (simp add: parse_sample_def)

lemma parse_samples_cong:
  "\<forall>s \<in> set ks. s \<noteq> ''metadata'' \<longrightarrow> map_of data s = map_of data' s \<Longrightarrow>
   parse_samples h f data ks m = parse_samples h f data' ks m"
proof (induction ks arbitrary: m)
  case Nil
  then show ?case by simp
next
  case (Cons s ks)
  show ?case
  proof (cases "s = ''metadata''")
    case True
    then show ?thesis using Cons by simp
  next
    case False
    then have "map_of data s = map_of data' s"
      using Cons.prems by simp
    then have "parse_sample h f data s m = parse_sample h f data' s m"
      by (rule parse_sample_cong)
    then show ?thesis using Cons False by (simp split: sum.splits)
  qed
qed

lemma parse_sample_file:
  "f_root f' = f_root f \<Longrightarrow> f_fn f' = f_fn f \<Longrightarrow>
   parse_sample h f' data s m = parse_sample h f data s m"
  by (simp add: parse_sample_def add_data_source_def)

lemma parse_samples_file:
  "f_root f' = f_root f \<Longrightarrow> f_fn f' = f_fn f \<Longrightarrow>
   parse_samples h f' data ks m = parse_samples h f data ks m"
proof (induction ks arbitrary: m)
  case Nil
  then show ?case by simp
next
  case (Cons s ks)
  have "parse_sample h f' data s m = parse_sample h f data s m"
    using Cons.prems by (rule parse_sample_file)
  then show ?case using Cons by (simp split: sum.splits)
qed

lemma sample_keys_delete:
  "sample_keys (map fst (AList.delete ''metadata'' data)) = sample_keys (map fst data)"
  by (induction data) (auto simp: sample_keys_def)

lemma parse_samples_delete_metadata:
  "parse_samples h f (AList.delete ''metadata'' data) (map fst (AList.delete ''metadata'' data)) m =
   parse_samples h f data (map fst data) m"
proof -
  have "parse_samples h f (AList.delete ''metadata'' data) (map fst (AList.delete ''metadata'' data)) m =
        parse_samples h f (AList.delete ''metadata'' data) (sample_keys (map fst data)) m"
    using parse_samples_sample_keys [of h f "AList.delete ''metadata'' data" "map fst (AList.delete ''metadata'' data)" m]
    by (simp add: sample_keys_delete)
  also have "\<dots> = parse_samples h f data (sample_keys (map fst data)) m"
    by (rule parse_samples_cong) (simp add: sample_keys_def delete_conv')
  also have "\<dots> = parse_samples h f data (map fst data) m"
    by (rule parse_samples_sample_keys [symmetric])
  finally show ?thesis .
qed

lemma parse_data_dom:
  "parse_data h f m = Inr m' \<Longrightarrow>
   fst ` set (mvcf_data m') = fst ` set (mvcf_data m) \<union> set (cleaned_names h f)"
proof -
  assume "parse_data h f m = Inr m'"
  from parse_data_keys [OF this]
  have "set (map fst (mvcf_data m')) = set (map fst (mvcf_data m)) \<union> set (cleaned_names h f)"
    by (simp add: set_insert_keys)
  then show ?thesis by simp
qed

lemma well_formed_parse_data:
  "json_load h (f_f f) = Inr data \<Longrightarrow> well_formed h data \<Longrightarrow> \<exists>m'. parse_data h f m = Inr m'"
  using well_formed_parse_samples [of h data f m] by (simp add: parse_data_decoded)

lemmas example_defs = example_host_def example_documents_def file_a_def file_b_def file_null_def
  file_truncated_def file_meta_def file_no_meta_def file_case_def
  parse_data_def parse_sample_def set_metric_def coerce_def add_data_source_def log_debug_def
  log_warn_def new_module_def Let_def

lemma prefix_insert_keys: "prefix ks (insert_keys ks cs)"
proof (induction cs arbitrary: ks)
  case Nil
  then show ?case by simp
next
  case (Cons c cs)
  have "prefix ks (if c \<in> set ks then ks else ks @ [c])" by simp
  also have "prefix \<dots> (insert_keys (if c \<in> set ks then ks else ks @ [c]) cs)"
    by (rule Cons.IH)
  finally show ?case by simp
qed

lemma parse_data_record:
  assumes d: "json_load h (f_f f) = Inr data" and p: "parse_data h f m = Inr m'"
    and s: "s_name \<noteq> ''metadata''" and v: "map_of data s_name = Some (PDict kvs)"
    and u: "\<forall>s \<in> fst ` set data. s \<noteq> ''metadata'' \<and> s \<noteq> s_name \<longrightarrow>
              clean_s_name h s (f_root f) \<noteq> clean_s_name h s_name (f_root f)"
  shows "\<exists>r. coerce_items h kvs [] = Inr r \<and>
             map_of (mvcf_data m') (clean_s_name h s_name (f_root f)) = Some r"
proof -
  let ?c = "clean_s_name h s_name (f_root f)"
  let ?ss = "filter (\<lambda>s. clean_s_name h s (f_root f) = ?c) (sample_keys (map fst data))"
  have ps: "parse_samples h f data (map fst data) m = Inr m'"
    using d p by (simp add: parse_data_decoded)
  have "s_name \<in> fst ` set data"
    using v by (metis domI dom_map_of_conv_image_fst)
  then have mem: "s_name \<in> set ?ss" using s by (simp add: sample_keys_def)
  have ne: "?ss \<noteq> []"
  proof
    assume "?ss = []"
    with mem show False by (simp only: list.set empty_iff)
  qed
  then have "last ?ss \<in> set ?ss" by (rule last_in_set)
  then have l: "last ?ss = s_name" using u by (auto simp: sample_keys_def)
  have "sample_record h data s_name \<noteq> None"
    using ps parse_samples_ok [of h f data "map fst data" m] mem by auto
  then obtain r where r: "sample_record h data s_name = Some r" by auto
  then have "coerce_items h kvs [] = Inr r"
    by (auto simp: sample_record_def v split: sum.splits)
  moreover have "map_of (mvcf_data m') ?c = Some r"
    using parse_samples_lookup [OF ps, of ?c] ne l r by (simp add: Let_def)
  ultimately show ?thesis by blast
qed

lemma init_parsed:
  "parse_files h files new_module = Inr m \<Longrightarrow>
   init h files =
     (if ignore_samples h (mvcf_data m) = []
      then Inl (UserWarning, m\<lparr>mvcf_data := []\<rparr>)
      else Inr (snp_count_barplot (read_count_barplot (addSummaryMetrics
             (write_data_file ''multiqc_multivcfanalyzer_metrics''
                (m\<lparr>mvcf_data := ignore_samples h (mvcf_data m)\<rparr>))))))"
  by (simp add: init_def Let_def)

lemma output_calls_mvcf_data:
  "mvcf_data (snp_count_barplot (read_count_barplot (addSummaryMetrics
      (write_data_file fn m)))) = mvcf_data m"
  by (simp add: snp_count_barplot_def read_count_barplot_def addSummaryMetrics_def
      write_data_file_def Let_def)

lemma output_calls_report:
  "report (snp_count_barplot (read_count_barplot (addSummaryMetrics (write_data_file fn m)))) \<noteq> []"
  by (simp add: snp_count_barplot_def read_count_barplot_def addSummaryMetrics_def
      write_data_file_def Let_def)

lemma parse_files_a:
  "parse_files example_host [file_a] new_module =
     Inr \<lparr>mvcf_data = [(''S1'', [(''NR Aut'', PFloat 100), (''NrX'', PFloat (11 / 2)),
                                 (''noCall'', PStr ''low'')])],
          data_sources = [(''S1'', ''run1'', ''a.json'')], log_msgs = [], report = []\<rparr>"
  by (simp add: example_defs)

lemma parse_files_truncated:
  "parse_files example_host [file_truncated] new_module =
     Inr \<lparr>mvcf_data = [], data_sources = [],
          log_msgs = [LogDebug ''Expecting value'',
            LogWarn (''Could not parse MultiVCFAnalyzer JSON: '' @ [CHR 0x27] @ ''cut.json'' @ [CHR 0x27])],
          report = []\<rparr>"
  by (simp add: example_defs)

lemma parse_files_ab:
  "parse_files example_host ([file_a] @ file_b # []) new_module =
     Inr \<lparr>mvcf_data = [(''S1'', [(''NrY'', PFloat 7)]), (''S2'', [(''NrX'', PFloat 3)])],
          data_sources = [(''S1'', ''run1'', ''a.json''), (''S1'', ''run2'', ''b.json''),
                          (''S2'', ''run2'', ''b.json'')],
          log_msgs = [LogDebug ''Duplicate sample name found! Overwriting: S1''],
          report = []\<rparr>"
  by (simp add: example_defs)

lemma cleaned_names_examples:
  "cleaned_names example_host file_a = [''S1'']"
  "cleaned_names example_host file_b = [''S1'', ''S2'']"
  "cleaned_names example_host file_truncated = []"
  "cleaned_names example_host file_meta = [''S3'']"
  "cleaned_names example_host file_case = [''Metadata'', ''METADATA'', ''metadata '']"
  by (simp_all add: cleaned_names_def sample_keys_def example_defs)

lemma parse_file_b:
  "parse_data example_host file_b new_module =
     Inr \<lparr>mvcf_data = [(''S1'', [(''NrY'', PFloat 7)]), (''S2'', [(''NrX'', PFloat 3)])],
          data_sources = [(''S1'', ''run2'', ''b.json''), (''S2'', ''run2'', ''b.json'')],
          log_msgs = [], report = []\<rparr>"
  by (simp add: example_defs)

lemma parse_files_bab:
  "parse_files example_host [file_b, file_a, file_meta] new_module =
     Inr \<lparr>mvcf_data = [(''S1'', [(''NR Aut'', PFloat 100), (''NrX'', PFloat (11 / 2)),
                                 (''noCall'', PStr ''low'')]),
                       (''S2'', [(''NrX'', PFloat 3)]),
                       (''S3'', [(''NrX'', PFloat (11 / 2))])],
          data_sources = [(''S1'', ''run2'', ''b.json''), (''S2'', ''run2'', ''b.json''),
                          (''S1'', ''run1'', ''a.json''), (''S3'', ''run5'', ''m.json'')],
          log_msgs = [LogDebug ''Duplicate sample name found! Overwriting: S1''],
          report = []\<rparr>"
  by (simp add: example_defs)

lemma parse_file_case:
  "parse_data example_host file_case new_module =
     Inr \<lparr>mvcf_data = [(''Metadata'', []), (''METADATA'', []), (''metadata '', [])],
          data_sources = [(''Metadata'', ''run6'', ''c.json''), (''METADATA'', ''run6'', ''c.json''),
                          (''metadata '', ''run6'', ''c.json'')],
          log_msgs = [], report = []\<rparr>"
  by (simp add: example_defs)

section \<open>The claims\<close>

text \<open>
  C1. A metric value that is a string is stored as the float that \<^verbatim>\<open>float\<close> parses from it
  when there is one, and as the string itself otherwise: this is what the table holds
  after \<^verbatim>\<open>parse_data\<close> for every key of every sample of the file (a sample that no
  other key of the file overwrites, its name cleaning to the same identifier). The
  input \<^verbatim>\<open>{"S1": {"NR Aut": "100", "NrX": "5.5", "noCall": "low"}}\<close> yields the
  record \<^verbatim>\<open>S1 -> {"NR Aut": 100.0, "NrX": 5.5, "noCall": "low"}\<close>.
\<close>

theorem string_metric_coerced:
  "(json_load h (f_f f) = Inr data \<and> parse_data h f m = Inr m' \<and>
    s_name \<noteq> ''metadata'' \<and> map_of data s_name = Some (PDict kvs) \<and>
    (\<forall>s \<in> fst ` set data. s \<noteq> ''metadata'' \<and> s \<noteq> s_name \<longrightarrow>
        clean_s_name h s (f_root f) \<noteq> clean_s_name h s_name (f_root f)) \<and>
    distinct (map fst kvs) \<and> map_of kvs k = Some (PStr v) \<longrightarrow>
    (\<exists>r. map_of (mvcf_data m') (clean_s_name h s_name (f_root f)) = Some r \<and>
         map_of r k = Some (case float_of_str h v of Some x \<Rightarrow> PFloat x | None \<Rightarrow> PStr v))) \<and>
   parse_data example_host file_a new_module =
     Inr \<lparr>mvcf_data = [(''S1'', [(''NR Aut'', PFloat 100), (''NrX'', PFloat (11 / 2)),
                                 (''noCall'', PStr ''low'')])],
          data_sources = [(''S1'', ''run1'', ''a.json'')], log_msgs = [], report = []\<rparr>"
proof (intro conjI impI)
  assume a: "json_load h (f_f f) = Inr data \<and> parse_data h f m = Inr m' \<and>
    s_name \<noteq> ''metadata'' \<and> map_of data s_name = Some (PDict kvs) \<and>
    (\<forall>s \<in> fst ` set data. s \<noteq> ''metadata'' \<and> s \<noteq> s_name \<longrightarrow>
        clean_s_name h s (f_root f) \<noteq> clean_s_name h s_name (f_root f)) \<and>
    distinct (map fst kvs) \<and> map_of kvs k = Some (PStr v)"
  then obtain r where c: "coerce_items h kvs [] = Inr r"
    and l: "map_of (mvcf_data m') (clean_s_name h s_name (f_root f)) = Some r"
    using parse_data_record [of h f data m m' s_name kvs] by blast
  from a have "distinct (map fst kvs)" and "map_of kvs k = Some (PStr v)" by simp_all
  from coerce_items_lookup [OF c this]
  have "map_of r k = Some (case float_of_str h v of Some x \<Rightarrow> PFloat x | None \<Rightarrow> PStr v)"
    by (simp add: coerce_PStr)
  with l show "\<exists>r. map_of (mvcf_data m') (clean_s_name h s_name (f_root f)) = Some r \<and>
         map_of r k = Some (case float_of_str h v of Some x \<Rightarrow> PFloat x | None \<Rightarrow> PStr v)"
    by blast
next
  show "parse_data example_host file_a new_module =
     Inr \<lparr>mvcf_data = [(''S1'', [(''NR Aut'', PFloat 100), (''NrX'', PFloat (11 / 2)),
                                 (''noCall'', PStr ''low'')])],
          data_sources = [(''S1'', ''run1'', ''a.json'')], log_msgs = [], report = []\<rparr>"
    by (simp add: example_defs)
qed

theorem string_metric_coerced_witness:
  "\<exists>r. map_of [(''S1'', [(''NR Aut'', PFloat 100), (''NrX'', PFloat (11 / 2)),
                         (''noCall'', PStr ''low'')])] ''S1'' = Some r \<and>
       map_of r ''noCall'' = Some (PStr ''low'') \<and> map_of r ''NrX'' = Some (PFloat (11 / 2 :: real))"
  using string_metric_coerced [where h = example_host and f = file_a and m = new_module
      and s_name = "''S1''" and k = "''noCall''" and v = "''low''"
      and kvs = "[(''NR Aut'', PStr ''100''), (''NrX'', PStr ''5.5''), (''noCall'', PStr ''low'')]"
      and data = "[(''S1'', PDict [(''NR Aut'', PStr ''100''), (''NrX'', PStr ''5.5''),
                         (''noCall'', PStr ''low'')])]"]
  by (simp add: example_defs)

text \<open>
  C2, as amended. When every sample of the decoded document is an object whose values are
  strings or numbers that \<^verbatim>\<open>float\<close> converts, \<^verbatim>\<open>parse_data\<close> returns and no exception
  reaches the caller; a string that is no float is stored as it is. The handler is
  \<^verbatim>\<open>except ValueError\<close>: on \<^verbatim>\<open>None\<close>, a list or a dict \<^verbatim>\<open>float\<close> raises \<^verbatim>\<open>TypeError\<close>,
  which the coercion step passes on. The claim as stated, that no value of any JSON
  type makes the step raise, fails on a \<^verbatim>\<open>null\<close>: see \<open>null_metric_raises\<close>.
\<close>

theorem coercion_catches_value_error_only:
  "(json_load h (f_f f) = Inr data \<and> well_formed h data \<longrightarrow> (\<exists>m'. parse_data h f m = Inr m')) \<and>
   coerce h (PStr s) = Inr (case float_of_str h s of Some x \<Rightarrow> PFloat x | None \<Rightarrow> PStr s) \<and>
   coerce h PNone = Inl TypeError \<and> coerce h (PList xs) = Inl TypeError \<and>
   coerce h (PDict kvs) = Inl TypeError"
  using well_formed_parse_data [of h f data m]
  by (simp add: coerce_PStr) (simp add: coerce_def)

theorem coercion_catches_value_error_only_witness:
  "well_formed example_host [(''S1'', PDict [(''NrY'', PStr ''7'')]), (''S2'', PDict [(''NrX'', PInt 3)])] \<and>
   (\<exists>m'. parse_data example_host file_b new_module = Inr m') \<and>
   coerce example_host (PStr ''low'') = Inr (PStr ''low'') \<and>
   coerce example_host (PStr ''5.5'') = Inr (PFloat (11 / 2))"
  using coercion_catches_value_error_only [where h = example_host and f = file_b and m = new_module
      and data = "[(''S1'', PDict [(''NrY'', PStr ''7'')]), (''S2'', PDict [(''NrX'', PInt 3)])]"
      and s = "''low''"]
    coercion_catches_value_error_only [where h = example_host and s = "''5.5''"]
  by (simp add: example_defs well_formed_def)

theorem null_metric_raises:
  "parse_data example_host file_null new_module =
     Inl (TypeError, \<lparr>mvcf_data = [(''S1'', [])],
          data_sources = [(''S1'', ''run3'', ''null.json'')], log_msgs = [], report = []\<rparr>)"
  by (simp add: example_defs)

text \<open>
  C3. With no input file the constructor raises \<^verbatim>\<open>UserWarning\<close> on a module that has
  made no call to the host. When every file has been parsed, it raises \<^verbatim>\<open>UserWarning\<close>
  exactly when \<^verbatim>\<open>ignore_samples\<close> leaves an empty table, and then no data file has been
  written, no summary column added and no bar chart plotted; when a sample remains it
  returns, the calls made on the filtered table.
\<close>

theorem init_skips_iff_no_sample:
  "init h [] = Inl (UserWarning, new_module) \<and>
   (parse_files h files new_module = Inr m \<longrightarrow>
      (ignore_samples h (mvcf_data m) = [] \<longrightarrow>
         init h files = Inl (UserWarning, m\<lparr>mvcf_data := []\<rparr>) \<and> report m = []) \<and>
      (ignore_samples h (mvcf_data m) \<noteq> [] \<longrightarrow>
         (\<exists>m'. init h files = Inr m' \<and> mvcf_data m' = ignore_samples h (mvcf_data m) \<and>
               report m' \<noteq> [])))"
proof (intro conjI impI)
  show "init h [] = Inl (UserWarning, new_module)"
    by (simp add: init_def ignore_samples_def new_module_def)
next
  assume p: "parse_files h files new_module = Inr m" and e: "ignore_samples h (mvcf_data m) = []"
  show "init h files = Inl (UserWarning, m\<lparr>mvcf_data := []\<rparr>)"
    using init_parsed [OF p] e by simp
  show "report m = []"
    using parse_files_fields [OF p] by (simp add: new_module_def)
next
  assume p: "parse_files h files new_module = Inr m" and e: "ignore_samples h (mvcf_data m) \<noteq> []"
  show "\<exists>m'. init h files = Inr m' \<and> mvcf_data m' = ignore_samples h (mvcf_data m) \<and> report m' \<noteq> []"
    using init_parsed [OF p] e by (simp add: output_calls_mvcf_data output_calls_report)
qed

theorem init_skips_iff_no_sample_witness:
  "(\<exists>m'. init example_host [file_a] = Inr m' \<and>
      mvcf_data m' = [(''S1'', [(''NR Aut'', PFloat 100), (''NrX'', PFloat (11 / 2)),
                                 (''noCall'', PStr ''low'')])] \<and> report m' \<noteq> []) \<and>
   init example_host [file_truncated] =
     Inl (UserWarning, \<lparr>mvcf_data = [], data_sources = [],
          log_msgs = [LogDebug ''Expecting value'',
            LogWarn (''Could not parse MultiVCFAnalyzer JSON: '' @ [CHR 0x27] @ ''cut.json'' @ [CHR 0x27])],
          report = []\<rparr>)"
  using init_skips_iff_no_sample [where h = example_host and files = "[file_a]", THEN conjunct2, rule_format, OF parse_files_a]
    init_skips_iff_no_sample [where h = example_host and files = "[file_truncated]", THEN conjunct2, rule_format, OF parse_files_truncated]
  by (simp add: ignore_samples_def example_host_def)

text \<open>
  C4. When the files are parsed in their order and \<open>f\<close> is the last of them that holds a
  sample cleaning to \<open>c\<close>, the record of \<open>c\<close> in the final table is the record that \<open>f\<close>
  alone gives on a new module: nothing of an earlier file is left in it. When an earlier
  file held \<open>c\<close> too, the collision is in the log, at debug level.
\<close>

theorem last_file_wins:
  "parse_files h (fs1 @ f # fs2) m = Inr m' \<and> c \<in> set (cleaned_names h f) \<and>
   (\<forall>g \<in> set fs2. c \<notin> set (cleaned_names h g)) \<longrightarrow>
   (\<exists>m1 r. parse_data h f new_module = Inr m1 \<and> map_of (mvcf_data m1) c = Some r \<and>
            map_of (mvcf_data m') c = Some r) \<and>
   ((\<exists>g \<in> set fs1. c \<in> set (cleaned_names h g)) \<longrightarrow>
      LogDebug (''Duplicate sample name found! Overwriting: '' @ c) \<in> set (log_msgs m'))"
proof (intro impI, elim conjE)
  assume p: "parse_files h (fs1 @ f # fs2) m = Inr m'" and c: "c \<in> set (cleaned_names h f)"
    and l: "\<forall>g \<in> set fs2. c \<notin> set (cleaned_names h g)"
  from p obtain ma where pa: "parse_files h fs1 m = Inr ma"
    and pr: "parse_files h (f # fs2) ma = Inr m'"
    by (auto simp: parse_files_append split: sum.splits)
  from pr obtain mb where pb: "parse_data h f ma = Inr mb" and pc: "parse_files h fs2 mb = Inr m'"
    by (auto split: sum.splits)
  have keep: "map_of (mvcf_data m') c = map_of (mvcf_data mb) c"
    using parse_files_lookup_other [OF pc l] .
  from parse_data_lookup_same [OF pb c, of new_module] obtain m1 r
    where "parse_data h f new_module = Inr m1" and "map_of (mvcf_data m1) c = Some r"
      and "map_of (mvcf_data mb) c = Some r"
    by blast
  with keep have first: "\<exists>m1 r. parse_data h f new_module = Inr m1 \<and>
      map_of (mvcf_data m1) c = Some r \<and> map_of (mvcf_data m') c = Some r"
    by auto
  have second: "LogDebug (''Duplicate sample name found! Overwriting: '' @ c) \<in> set (log_msgs m')"
    if g: "\<exists>g \<in> set fs1. c \<in> set (cleaned_names h g)"
  proof -
    have "set (map fst (mvcf_data ma)) =
        set (map fst (mvcf_data m)) \<union> set (concat (map (cleaned_names h) fs1))"
      using parse_files_keys [OF pa] by (simp only: set_insert_keys)
    then have "c \<in> fst ` set (mvcf_data ma)" using g by auto
    from parse_data_duplicate_logged [OF pb c this]
    show ?thesis using parse_files_fields [OF pc] by auto
  qed
  from first second
  show "(\<exists>m1 r. parse_data h f new_module = Inr m1 \<and> map_of (mvcf_data m1) c = Some r \<and>
            map_of (mvcf_data m') c = Some r) \<and>
   ((\<exists>g \<in> set fs1. c \<in> set (cleaned_names h g)) \<longrightarrow>
      LogDebug (''Duplicate sample name found! Overwriting: '' @ c) \<in> set (log_msgs m'))"
    by blast
qed

theorem last_file_wins_witness:
  "(\<exists>m1. parse_data example_host file_b new_module = Inr m1 \<and>
         map_of (mvcf_data m1) ''S1'' = Some [(''NrY'', PFloat 7)]) \<and>
   LogDebug ''Duplicate sample name found! Overwriting: S1''
     \<in> set [LogDebug ''Duplicate sample name found! Overwriting: S1'']"
proof -
  have c: "''S1'' \<in> set (cleaned_names example_host file_b)"
    and l: "\<forall>g \<in> set []. ''S1'' \<notin> set (cleaned_names example_host g)"
    and g: "\<exists>g \<in> set [file_a]. ''S1'' \<in> set (cleaned_names example_host g)"
    by (simp_all add: cleaned_names_examples)
  from last_file_wins [rule_format, OF conjI [OF parse_files_ab conjI [OF c l]]] g
  show ?thesis by simp
qed

text \<open>
  C5. On a file that \<^verbatim>\<open>json.load\<close> fails on, \<^verbatim>\<open>parse_data\<close> returns: the table, the data
  sources and the calls to the host are what they were, and the log has the exception
  (debug) and a warning with the file name.
\<close>

theorem undecodable_file_skipped:
  "json_load h (f_f f) = Inl e \<Longrightarrow>
   \<exists>m'. parse_data h f m = Inr m' \<and> mvcf_data m' = mvcf_data m \<and>
        data_sources m' = data_sources m \<and> report m' = report m \<and>
        log_msgs m' = log_msgs m @
          [LogDebug e,
           LogWarn (''Could not parse MultiVCFAnalyzer JSON: '' @ [CHR 0x27] @ f_fn f @ [CHR 0x27])]"
  by (simp add: parse_data_failed)

theorem undecodable_file_skipped_witness:
  "json_load example_host (f_f file_truncated) = Inl ''Expecting value'' \<and>
   (\<exists>m'. parse_data example_host file_truncated
           \<lparr>mvcf_data = [(''S1'', [(''NrY'', PFloat 7)])], data_sources = [(''S1'', ''run2'', ''b.json'')],
            log_msgs = [], report = []\<rparr> = Inr m' \<and>
        mvcf_data m' = [(''S1'', [(''NrY'', PFloat 7)])])"
proof -
  have e: "json_load example_host (f_f file_truncated) = Inl ''Expecting value''"
    by (simp add: example_defs)
  from undecodable_file_skipped [OF e,
      of "\<lparr>mvcf_data = [(''S1'', [(''NrY'', PFloat 7)])], data_sources = [(''S1'', ''run2'', ''b.json'')],
            log_msgs = [], report = []\<rparr>"] e
  show ?thesis by auto
qed

text \<open>
  C6. The entry of the key \<^verbatim>\<open>"metadata"\<close> has no effect, whatever its value:
  \<^verbatim>\<open>parse_data\<close> does on a file what it does on the file without this entry, and the
  keys of the table afterwards are the keys it had and the cleaned names of the other
  keys of the document.
\<close>

theorem metadata_key_ignored:
  "(json_load h (f_f f) = Inr data \<and> json_load h (f_f f') = Inr (AList.delete ''metadata'' data) \<and>
    f_root f' = f_root f \<and> f_fn f' = f_fn f \<longrightarrow> parse_data h f m = parse_data h f' m) \<and>
   (json_load h (f_f f) = Inr data \<and> parse_data h f m = Inr m' \<longrightarrow>
      fst ` set (mvcf_data m') =
        fst ` set (mvcf_data m) \<union>
        (\<lambda>s. clean_s_name h s (f_root f)) ` (fst ` set data - {''metadata''}))"
proof (intro conjI impI)
  assume a: "json_load h (f_f f) = Inr data \<and> json_load h (f_f f') = Inr (AList.delete ''metadata'' data) \<and>
    f_root f' = f_root f \<and> f_fn f' = f_fn f"
  then have "parse_data h f' m =
      parse_samples h f' (AList.delete ''metadata'' data) (map fst (AList.delete ''metadata'' data)) m"
    by (simp add: parse_data_decoded)
  also have "\<dots> = parse_samples h f (AList.delete ''metadata'' data) (map fst (AList.delete ''metadata'' data)) m"
    using a by (intro parse_samples_file) simp_all
  also have "\<dots> = parse_samples h f data (map fst data) m"
    by (rule parse_samples_delete_metadata)
  also have "\<dots> = parse_data h f m"
    using a by (simp add: parse_data_decoded)
  finally show "parse_data h f m = parse_data h f' m" by simp
next
  assume a: "json_load h (f_f f) = Inr data \<and> parse_data h f m = Inr m'"
  then have "set (cleaned_names h f) =
      (\<lambda>s. clean_s_name h s (f_root f)) ` (fst ` set data - {''metadata''})"
    by (auto simp: cleaned_names_def sample_keys_def)
  then show "fst ` set (mvcf_data m') =
        fst ` set (mvcf_data m) \<union>
        (\<lambda>s. clean_s_name h s (f_root f)) ` (fst ` set data - {''metadata''})"
    using a parse_data_dom [of h f m m'] by simp
qed

theorem metadata_key_ignored_witness:
  "parse_data example_host file_meta new_module = parse_data example_host file_no_meta new_module \<and>
   parse_data example_host file_meta new_module =
     Inr \<lparr>mvcf_data = [(''S3'', [(''NrX'', PFloat (11 / 2))])],
          data_sources = [(''S3'', ''run5'', ''m.json'')], log_msgs = [], report = []\<rparr> \<and>
   fst ` set [(''S3'', [(''NrX'', PFloat (11 / 2 :: real))])] = {''S3''}"
proof -
  have d: "json_load example_host (f_f file_meta) =
      Inr [(''metadata'', PDict [(''tool'', PStr ''MultiVCFAnalyzer'')]),
           (''S3'', PDict [(''NrX'', PStr ''5.5'')])]"
    by (simp add: example_defs)
  have d': "json_load example_host (f_f file_no_meta) =
      Inr (AList.delete ''metadata'' [(''metadata'', PDict [(''tool'', PStr ''MultiVCFAnalyzer'')]),
           (''S3'', PDict [(''NrX'', PStr ''5.5'')])])"
    by (simp add: example_defs)
  have r: "f_root file_no_meta = f_root file_meta" "f_fn file_no_meta = f_fn file_meta"
    by (simp_all add: example_defs)
  have p: "parse_data example_host file_meta new_module =
     Inr \<lparr>mvcf_data = [(''S3'', [(''NrX'', PFloat (11 / 2))])],
          data_sources = [(''S3'', ''run5'', ''m.json'')], log_msgs = [], report = []\<rparr>"
    by (simp add: example_defs)
  from metadata_key_ignored [where h = example_host and f = file_meta and f' = file_no_meta
      and m = new_module, THEN conjunct1, rule_format, OF conjI [OF d conjI [OF d' conjI [OF r]]]]
    metadata_key_ignored [where h = example_host and f = file_meta
      and m = new_module, THEN conjunct2, rule_format, OF conjI [OF d p]]
    p
  show ?thesis by (simp add: new_module_def)
qed

text \<open>
  C7. On a document of the input format, \<^verbatim>\<open>parse_data\<close> returns, and for every key \<open>s\<close>
  other than \<^verbatim>\<open>"metadata"\<close> the table has exactly one record under the cleaned name of
  \<open>s\<close>. When the cleaned names of these keys are distinct and the table was empty, the
  table has one record for each, in the order of the document.
\<close>

theorem one_record_per_sample_key:
  "json_load h (f_f f) = Inr data \<and> well_formed h data \<and> distinct (map fst (mvcf_data m)) \<and>
   s \<in> fst ` set data \<and> s \<noteq> ''metadata'' \<longrightarrow>
   (\<exists>m'. parse_data h f m = Inr m' \<and>
      (\<exists>r. filter (\<lambda>(c, r). c = clean_s_name h s (f_root f)) (mvcf_data m') =
             [(clean_s_name h s (f_root f), r)]) \<and>
      (mvcf_data m = [] \<and>
       distinct (map (\<lambda>s. clean_s_name h s (f_root f))
                   (filter (\<lambda>s. s \<noteq> ''metadata'') (map fst data))) \<longrightarrow>
       map fst (mvcf_data m') =
         map (\<lambda>s. clean_s_name h s (f_root f)) (filter (\<lambda>s. s \<noteq> ''metadata'') (map fst data))))"
proof (intro impI, elim conjE)
  let ?c = "clean_s_name h s (f_root f)"
  assume d: "json_load h (f_f f) = Inr data" and w: "well_formed h data"
    and dm: "distinct (map fst (mvcf_data m))" and s: "s \<in> fst ` set data" "s \<noteq> ''metadata''"
  from well_formed_parse_data [OF d w] obtain m' where p: "parse_data h f m = Inr m'" by blast
  have names: "cleaned_names h f =
      map (\<lambda>s. clean_s_name h s (f_root f)) (filter (\<lambda>s. s \<noteq> ''metadata'') (map fst data))"
    by (simp add: cleaned_names_def d sample_keys_def)
  have keys: "map fst (mvcf_data m') = insert_keys (map fst (mvcf_data m)) (cleaned_names h f)"
    by (rule parse_data_keys [OF p])
  then have dist: "distinct (map fst (mvcf_data m'))"
    using dm by (simp add: distinct_insert_keys)
  have "?c \<in> set (cleaned_names h f)" using s by (auto simp: names)
  then have "?c \<in> fst ` set (mvcf_data m')"
    using parse_data_dom [OF p] by simp
  then obtain r where "map_of (mvcf_data m') ?c = Some r"
    by (metis domD dom_map_of_conv_image_fst)
  from filter_key_distinct [OF dist this]
  have one: "\<exists>r. filter (\<lambda>(c, r). c = ?c) (mvcf_data m') = [(?c, r)]" by blast
  have all: "map fst (mvcf_data m') = cleaned_names h f"
    if "mvcf_data m = []" and "distinct (cleaned_names h f)"
    using keys that insert_keys_distinct [of "[]" "cleaned_names h f"] by simp
  from p one all show "\<exists>m'. parse_data h f m = Inr m' \<and>
      (\<exists>r. filter (\<lambda>(c, r). c = ?c) (mvcf_data m') = [(?c, r)]) \<and>
      (mvcf_data m = [] \<and>
       distinct (map (\<lambda>s. clean_s_name h s (f_root f))
                   (filter (\<lambda>s. s \<noteq> ''metadata'') (map fst data))) \<longrightarrow>
       map fst (mvcf_data m') =
         map (\<lambda>s. clean_s_name h s (f_root f)) (filter (\<lambda>s. s \<noteq> ''metadata'') (map fst data)))"
    unfolding names [symmetric] by blast
qed

theorem one_record_per_sample_key_witness:
  "well_formed example_host
     [(''S1'', PDict [(''NrY'', PStr ''7'')]), (''S2'', PDict [(''NrX'', PInt 3)])] \<and>
   filter (\<lambda>(c, r). c = ''S2'')
     [(''S1'', [(''NrY'', PFloat 7)]), (''S2'', [(''NrX'', PFloat (3 :: real))])] =
     [(''S2'', [(''NrX'', PFloat 3)])] \<and>
   map fst [(''S1'', [(''NrY'', PFloat 7)]), (''S2'', [(''NrX'', PFloat (3 :: real))])] =
     [''S1'', ''S2'']"
proof -
  have d: "json_load example_host (f_f file_b) =
      Inr [(''S1'', PDict [(''NrY'', PStr ''7'')]), (''S2'', PDict [(''NrX'', PInt 3)])]"
    by (simp add: example_defs)
  have w: "well_formed example_host
     [(''S1'', PDict [(''NrY'', PStr ''7'')]), (''S2'', PDict [(''NrX'', PInt 3)])]"
    by (simp add: well_formed_def example_host_def)
  have m: "distinct (map fst (mvcf_data (new_module :: real module)))"
    by (simp add: new_module_def)
  have s: "''S2'' \<in> fst ` set [(''S1'', PDict [(''NrY'', PStr ''7'')]), (''S2'', PDict [(''NrX'', PInt (3 :: int))])]"
    "''S2'' \<noteq> ''metadata''"
    by simp_all
  from one_record_per_sample_key [where h = example_host and f = file_b and m = new_module
      and s = "''S2''", rule_format, OF conjI [OF d conjI [OF w conjI [OF m conjI [OF s]]]]] w
  show ?thesis by (simp add: parse_file_b)
qed

text \<open>
  C8. The coercion is idempotent: applied to a value that it has stored, it gives this
  value again (a float stays the float, a string that is no float stays the string).
\<close>

theorem coerce_idempotent: "coerce h v = Inr w \<Longrightarrow> coerce h w = Inr w"
  by (cases v) (auto simp: coerce_def split: option.splits if_splits)

theorem coerce_idempotent_witness:
  "coerce example_host (PStr ''5.5'') = Inr (PFloat (11 / 2)) \<and>
   coerce example_host (PFloat (11 / 2)) = Inr (PFloat (11 / 2)) \<and>
   coerce example_host (PStr ''low'') = Inr (PStr ''low'')"
proof -
  have a: "coerce example_host (PStr ''5.5'') = Inr (PFloat (11 / 2))"
    and b: "coerce example_host (PStr ''low'') = Inr (PStr ''low'')"
    by (simp_all add: coerce_def example_host_def)
  from a b coerce_idempotent [OF a] coerce_idempotent [OF b] show ?thesis by simp
qed

text \<open>
  C9. After any sequence of files, the keys of the table are the keys that it had,
  followed by the cleaned names that the files brought, each where it was seen first:
  the sequence of all of them with every later repetition removed. The keys that the
  table had are a prefix of it, so an overwritten key does not move.
\<close>

theorem first_seen_order_kept:
  "parse_files h fs m = Inr m' \<and> distinct (map fst (mvcf_data m)) \<longrightarrow>
   map fst (mvcf_data m') =
     rev (remdups (rev (map fst (mvcf_data m) @ concat (map (cleaned_names h) fs)))) \<and>
   prefix (map fst (mvcf_data m)) (map fst (mvcf_data m'))"
proof (intro impI, elim conjE)
  assume p: "parse_files h fs m = Inr m'" and d: "distinct (map fst (mvcf_data m))"
  have k: "map fst (mvcf_data m') =
      insert_keys (map fst (mvcf_data m)) (concat (map (cleaned_names h) fs))"
    by (rule parse_files_keys [OF p])
  show "map fst (mvcf_data m') =
     rev (remdups (rev (map fst (mvcf_data m) @ concat (map (cleaned_names h) fs)))) \<and>
   prefix (map fst (mvcf_data m)) (map fst (mvcf_data m'))"
    unfolding k
  proof
    show "insert_keys (map fst (mvcf_data m)) (concat (map (cleaned_names h) fs)) =
        rev (remdups (rev (map fst (mvcf_data m) @ concat (map (cleaned_names h) fs))))"
      by (rule insert_keys_remdups [OF d])
    show "prefix (map fst (mvcf_data m))
        (insert_keys (map fst (mvcf_data m)) (concat (map (cleaned_names h) fs)))"
      by (rule prefix_insert_keys)
  qed
qed

theorem first_seen_order_kept_witness:
  "map fst [(''S1'', [(''NR Aut'', PFloat 100), (''NrX'', PFloat (11 / 2)), (''noCall'', PStr ''low'')]),
            (''S2'', [(''NrX'', PFloat 3)]),
            (''S3'', [(''NrX'', PFloat (11 / 2 :: real))])] =
     rev (remdups (rev ([] @ concat [[''S1'', ''S2''], [''S1''], [''S3'']])))"
proof -
  have d: "distinct (map fst (mvcf_data (new_module :: real module)))"
    by (simp add: new_module_def)
  from first_seen_order_kept [rule_format, OF conjI [OF parse_files_bab d]]
  show ?thesis by (simp add: cleaned_names_examples new_module_def)
qed

text \<open>
  C10. A key that is not exactly the string \<^verbatim>\<open>"metadata"\<close>, such as \<^verbatim>\<open>"Metadata"\<close>,
  \<^verbatim>\<open>"METADATA"\<close> or \<^verbatim>\<open>"metadata "\<close>, is a sample: on a document of the input format
  the table has a record under its cleaned name after \<^verbatim>\<open>parse_data\<close>.
\<close>

theorem reserved_key_compared_exactly:
  "s \<noteq> ''metadata'' \<and> json_load h (f_f f) = Inr data \<and> well_formed h data \<and>
   s \<in> fst ` set data \<longrightarrow>
   (\<exists>m'. parse_data h f m = Inr m' \<and> clean_s_name h s (f_root f) \<in> fst ` set (mvcf_data m'))"
proof (intro impI, elim conjE)
  assume s: "s \<noteq> ''metadata''" "s \<in> fst ` set data" and d: "json_load h (f_f f) = Inr data"
    and w: "well_formed h data"
  from well_formed_parse_data [OF d w] obtain m' where p: "parse_data h f m = Inr m'" by blast
  have "clean_s_name h s (f_root f) \<in> set (cleaned_names h f)"
    using s by (auto simp: cleaned_names_def d sample_keys_def)
  then have "clean_s_name h s (f_root f) \<in> fst ` set (mvcf_data m')"
    using parse_data_dom [OF p] by simp
  with p show "\<exists>m'. parse_data h f m = Inr m' \<and> clean_s_name h s (f_root f) \<in> fst ` set (mvcf_data m')"
    by blast
qed

theorem reserved_key_compared_exactly_witness:
  "''Metadata'' \<noteq> ''metadata'' \<and> ''METADATA'' \<noteq> ''metadata'' \<and> ''metadata '' \<noteq> ''metadata'' \<and>
   {''Metadata'', ''METADATA'', ''metadata ''} \<subseteq>
     fst ` set [(''Metadata'', [] :: real metrics), (''METADATA'', []), (''metadata '', [])]"
proof -
  let ?data = "[(''Metadata'', PDict []), (''METADATA'', PDict []), (''metadata '', PDict [])]
    :: (string \<times> real pyval) list"
  have d: "json_load example_host (f_f file_case) = Inr ?data"
    by (simp add: example_defs)
  have w: "well_formed example_host ?data"
    by (simp add: well_formed_def)
  have s1: "''Metadata'' \<noteq> ''metadata''" "''Metadata'' \<in> fst ` set ?data"
    and s2: "''METADATA'' \<noteq> ''metadata''" "''METADATA'' \<in> fst ` set ?data"
    and s3: "''metadata '' \<noteq> ''metadata''" "''metadata '' \<in> fst ` set ?data"
    by simp_all
  from reserved_key_compared_exactly [where m = new_module, rule_format,
      OF conjI [OF s1(1) conjI [OF d conjI [OF w s1(2)]]]]
    reserved_key_compared_exactly [where m = new_module, rule_format,
      OF conjI [OF s2(1) conjI [OF d conjI [OF w s2(2)]]]]
    reserved_key_compared_exactly [where m = new_module, rule_format,
      OF conjI [OF s3(1) conjI [OF d conjI [OF w s3(2)]]]]
  show ?thesis by (simp add: parse_file_case example_host_def)
qed

end
